theory Spec2Isabelle
  imports Main "HOL-Library.Word"
begin

unbundle bit_operations_syntax

section \<open>The unitdb adapter of unitd-go (db/unitdb/adapter.go)\<close>

text \<open>
  The adapter batches encoded write records in a byte buffer (\<open>Append\<close>), flushes the
  batch into a write-ahead log (\<open>Write\<close>) and replays the log at startup
  (\<open>Recovery\<close>). The embedding follows adapter.go function by function. The
  collaborators of the file (the key-value engine memdb, the log wal, the buffer of bpool,
  the directory creation of os and the clock of time) live in other packages; they are
  modelled by the interface the adapter calls, with their answers given by the
  environment.
\<close>

subsection \<open>Outcomes of a call\<close>

type_synonym byte = "8 word"

datatype error =
    AlreadyConnected  \<comment> \<open>"unitdb adapter is already connected"\<close>
  | CreateDirFailed   \<comment> \<open>"adapter.Open, Unable to create db dir"\<close>
  | BufferError       \<comment> \<open>an error returned by the buffer's Write\<close>
  | EngineError nat   \<comment> \<open>an error returned by memdb\<close>
  | WalError nat      \<comment> \<open>an error returned by wal\<close>

text \<open>
  A Go call returns, panics (nil dereference, slice bounds out of range) or never returns
  (a channel operation that no other goroutine completes).
\<close>

datatype 'a outcome = Returns 'a | Panics | Blocks

subsection \<open>encoding/binary, little endian\<close>

definition PutUint32 :: "32 word \<Rightarrow> byte list" where
  "PutUint32 v = [ucast v, ucast (drop_bit 8 v), ucast (drop_bit 16 v), ucast (drop_bit 24 v)]"

definition Uint32 :: "byte list \<Rightarrow> 32 word" where
  "Uint32 b = ucast (b ! 0) OR push_bit 8 (ucast (b ! 1)) OR push_bit 16 (ucast (b ! 2))
     OR push_bit 24 (ucast (b ! 3))"

definition PutUint64 :: "64 word \<Rightarrow> byte list" where
  "PutUint64 v = [ucast v, ucast (drop_bit 8 v), ucast (drop_bit 16 v), ucast (drop_bit 24 v),
     ucast (drop_bit 32 v), ucast (drop_bit 40 v), ucast (drop_bit 48 v), ucast (drop_bit 56 v)]"

definition Uint64 :: "byte list \<Rightarrow> 64 word" where
  "Uint64 b = ucast (b ! 0) OR push_bit 8 (ucast (b ! 1)) OR push_bit 16 (ucast (b ! 2))
     OR push_bit 24 (ucast (b ! 3)) OR push_bit 32 (ucast (b ! 4)) OR push_bit 40 (ucast (b ! 5))
     OR push_bit 48 (ucast (b ! 6)) OR push_bit 56 (ucast (b ! 7))"

text \<open>
  The slice expression \<open>s[lo:hi]\<close>. It panics unless \<open>lo \<le> hi \<le> cap(s)\<close>: the bound is
  the capacity of \<open>s\<close>, not its length. The list is the array under \<open>s\<close> as far as the
  capacity reaches; \<open>None\<close> is the panic.
\<close>

definition slice :: "'a list \<Rightarrow> nat \<Rightarrow> nat \<Rightarrow> 'a list option" where
  "slice s lo hi = (if lo \<le> hi \<and> hi \<le> length s then Some (take (hi - lo) (drop lo s)) else None)"

subsection \<open>The buffer of bpool\<close>

text \<open>
  \<open>bpool.Buffer\<close> is a growable byte buffer over a byte array, with \<open>Write\<close>,
  \<open>Bytes\<close> and \<open>Reset\<close>. \<open>bytes\<close> is its contents, the slice that \<open>Bytes\<close>
  returns; \<open>spare\<close> is the rest of the array behind the contents, as far as the capacity
  reaches: zero bytes, or contents from before a \<open>Reset\<close>; \<open>room\<close> is how much spare
  capacity is left behind a new array that is made to hold a given number of bytes (the
  growth of \<open>append\<close>).
\<close>

record buffer =
  bytes :: "byte list"
  spare :: "byte list"
  room :: "nat \<Rightarrow> nat"

text \<open>
  The buffer after \<open>p\<close> was appended: in place, over the spare bytes, when the capacity
  is enough, and in a new array otherwise.
\<close>

definition written :: "buffer \<Rightarrow> byte list \<Rightarrow> buffer" where
  "written b p =
     (if length p \<le> length (spare b)
      then b\<lparr>bytes := bytes b @ p, spare := drop (length p) (spare b)\<rparr>
      else b\<lparr>bytes := bytes b @ p, spare := replicate (room b (length (bytes b) + length p)) 0\<rparr>)"

text \<open>
  \<open>Write\<close> panics on an argument of length 0 (\<open>None\<close>). The buffer has no bound on its
  size, so no write returns an error, though the signature has one.
\<close>

definition buffer_Write :: "buffer \<Rightarrow> byte list \<Rightarrow> (error + buffer) option" where
  "buffer_Write b p = (if p = [] then None else Some (Inr (written b p)))"

text \<open>
  \<open>Reset\<close> sets the length to 0 and keeps the array: the old contents are spare
  capacity now, and a slice expression on what \<open>Bytes\<close> returns still reaches them.
\<close>

definition buffer_Reset :: "buffer \<Rightarrow> buffer" where
  "buffer_Reset b = b\<lparr>bytes := [], spare := bytes b @ spare b\<rparr>"

subsection \<open>The engine memdb and the log wal, as the adapter sees them\<close>

text \<open>
  The engine is reached through a pointer; what a call answers is the engine's business.
  The handle holds the answer of each operation as a function of its arguments.
\<close>

record memdb =
  db_Set :: "64 word \<Rightarrow> 64 word \<Rightarrow> byte list \<Rightarrow> error option"
  db_Get :: "64 word \<Rightarrow> 64 word \<Rightarrow> error + byte list"
  db_Keys :: "64 word \<Rightarrow> 64 word list"
  db_Remove :: "64 word \<Rightarrow> 64 word \<Rightarrow> error option"

text \<open>
  What \<open>r.Next()\<close> gives for one entry of the log: the bytes of the entry, the end of the
  segment (\<open>ok = false\<close>) or an error.
\<close>

datatype next_result = NextData "byte list" | NextEnd | NextErr error

record segment =
  seg_timeID :: int
  seg_count :: "32 word"
  seg_next :: "next_result list"

datatype wal_call =
    NewWriter
  | LogAppend "byte list"
  | SignalInitWrite int
  | SignalLogApplied int
  | NewReader
  | ReaderRead
  | ReaderCount
  | ReaderNext
  | WalClose

text \<open>
  The log keeps the calls made on it, oldest first. \<open>reply\<close> is the error (or none)
  with which it answers a call, given the calls before it; \<open>segments\<close> is what a reader
  finds in it, oldest first.
\<close>

record wal =
  calls :: "wal_call list"
  reply :: "wal_call list \<Rightarrow> wal_call \<Rightarrow> error option"
  segments :: "segment list"

definition wal_do :: "wal \<Rightarrow> wal_call \<Rightarrow> error option \<times> wal" where
  "wal_do w c = (reply w (calls w) c, w\<lparr>calls := calls w @ [c]\<rparr>)"

subsection \<open>The adapter\<close>

record configType =
  path :: string
  size :: int
  dur :: int

record tinyBatch =
  entryCount :: "32 word"
  buffer :: "buffer option"

text \<open>
  \<open>writeLockC\<close> is a channel of empty structs: its capacity and the number of elements
  in it are all there is to it. The pointers \<open>db\<close>, \<open>config\<close>, \<open>wal\<close>, \<open>closer\<close>,
  \<open>bufPool\<close> and the batch's \<open>buffer\<close> may be nil (\<open>None\<close>); \<open>closer\<close> is the log
  itself when set, and \<open>bufPool\<close> is known by the size it was made with.
\<close>

record adapter =
  db :: "memdb option"
  config :: "configType option"
  writeLockC_cap :: nat
  writeLockC_len :: nat
  bufPool :: "int option"
  tinyBatch :: tinyBatch
  wal :: "wal option"
  version :: int
  closer :: bool

text \<open>\<open>init\<close>: an unbuffered channel and an empty batch; every other field has its zero value.\<close>

definition init_adapter :: adapter where
  "init_adapter = \<lparr>db = None, config = None, writeLockC_cap = 0, writeLockC_len = 0,
     bufPool = None, tinyBatch = \<lparr>entryCount = 0, buffer = None\<rparr>, wal = None,
     version = 0, closer = False\<rparr>"

definition reset :: "tinyBatch \<Rightarrow> tinyBatch" where
  "reset b = b\<lparr>entryCount := 0\<rparr>"

definition count :: "tinyBatch \<Rightarrow> 32 word" where
  "count b = entryCount b"

definition incount :: "tinyBatch \<Rightarrow> tinyBatch" where
  "incount b = b\<lparr>entryCount := entryCount b + 1\<rparr>"

subsection \<open>Append\<close>

text \<open>\<open>len(data)\<close>: a nil slice has length 0.\<close>

definition len :: "byte list option \<Rightarrow> nat" where
  "len data = (case data of None \<Rightarrow> 0 | Some d \<Rightarrow> length d)"

definition set_buffer :: "adapter \<Rightarrow> buffer \<Rightarrow> adapter" where
  "set_buffer a b = a\<lparr>tinyBatch := (tinyBatch a)\<lparr>buffer := Some b\<rparr>\<rparr>"

text \<open>
  Three writes into the batch's buffer: the length field, the flag byte with the key, and
  the payload when \<open>data\<close> is not nil. An error of a write is returned at once, and a
  panic of a write ends the call, with what was written before it left in the buffer and
  the count as it was.
\<close>

definition Append :: "adapter \<Rightarrow> bool \<Rightarrow> 64 word \<Rightarrow> byte list option \<Rightarrow> error option outcome \<times> adapter" where
  "Append a delFlag k data =
     (let dBit = (if delFlag then 1 else 0 :: byte);
          scratch = PutUint32 (of_nat (len data + 8 + 4 + 1))
      in case buffer (tinyBatch a) of
           None \<Rightarrow> (Panics, a)
         | Some b0 \<Rightarrow>
            (case buffer_Write b0 scratch of
               None \<Rightarrow> (Panics, a)
             | Some (Inl e) \<Rightarrow> (Returns (Some e), a)
             | Some (Inr b1) \<Rightarrow>
                (case buffer_Write b1 (dBit # PutUint64 k) of
                   None \<Rightarrow> (Panics, set_buffer a b1)
                 | Some (Inl e) \<Rightarrow> (Returns (Some e), set_buffer a b1)
                 | Some (Inr b2) \<Rightarrow>
                    (case data of
                       None \<Rightarrow> (Returns None, (set_buffer a b2)\<lparr>tinyBatch := incount (tinyBatch (set_buffer a b2))\<rparr>)
                     | Some d \<Rightarrow>
                        (case buffer_Write b2 d of
                           None \<Rightarrow> (Panics, set_buffer a b2)
                         | Some (Inl e) \<Rightarrow> (Returns (Some e), set_buffer a b2)
                         | Some (Inr b3) \<Rightarrow> (Returns None, (set_buffer a b3)\<lparr>tinyBatch := incount (tinyBatch (set_buffer a b3))\<rparr>))))))"

subsection \<open>The message operations\<close>

text \<open>
  None of them looks at the connection state: each calls the engine through \<open>a.db\<close>
  and hands back what the engine answers. Through a nil \<open>a.db\<close> the call dereferences
  nil inside the engine.
\<close>

definition IsOpen :: "adapter \<Rightarrow> bool" where
  "IsOpen a = (db a \<noteq> None)"

definition PutMessage :: "adapter \<Rightarrow> 64 word \<Rightarrow> 64 word \<Rightarrow> byte list \<Rightarrow> error option outcome" where
  "PutMessage a blockId key payload =
     (case db a of None \<Rightarrow> Panics | Some d \<Rightarrow> Returns (db_Set d blockId key payload))"

definition GetMessage :: "adapter \<Rightarrow> 64 word \<Rightarrow> 64 word \<Rightarrow> (error + byte list) outcome" where
  "GetMessage a blockId key =
     (case db a of None \<Rightarrow> Panics | Some d \<Rightarrow> Returns (db_Get d blockId key))"

definition Keys :: "adapter \<Rightarrow> 64 word \<Rightarrow> 64 word list outcome" where
  "Keys a blockId = (case db a of None \<Rightarrow> Panics | Some d \<Rightarrow> Returns (db_Keys d blockId))"

definition DeleteMessage :: "adapter \<Rightarrow> 64 word \<Rightarrow> 64 word \<Rightarrow> error option outcome" where
  "DeleteMessage a blockId key =
     (case db a of None \<Rightarrow> Panics | Some d \<Rightarrow> Returns (db_Remove d blockId key))"

subsection \<open>Open\<close>

text \<open>
  The environment gives whether \<open>os.MkdirAll\<close> succeeded, what \<open>memdb.Open\<close> returned
  and the buffer that the new pool hands out. The configuration is stored before the
  directory is made, so a failed \<open>Open\<close> leaves it changed; only the first check returns
  with nothing touched.
\<close>

definition Open :: "adapter \<Rightarrow> string \<Rightarrow> int \<Rightarrow> int \<Rightarrow> bool \<Rightarrow> error + memdb \<Rightarrow> buffer
    \<Rightarrow> error option outcome \<times> adapter" where
  "Open a p sz d mkdir_ok opened fresh =
     (if db a \<noteq> None then (Returns (Some AlreadyConnected), a)
      else
        let a1 = a\<lparr>config := Some \<lparr>path = p, size = sz, dur = d\<rparr>\<rparr>
        in if \<not> mkdir_ok then (Returns (Some CreateDirFailed), a1)
           else case opened of
                  Inl e \<Rightarrow> (Returns (Some e), a1\<lparr>db := None\<rparr>)
                | Inr engine \<Rightarrow> (Returns None,
                    set_buffer (a1\<lparr>db := Some engine, bufPool := Some sz\<rparr>) fresh))"

subsection \<open>Recovery\<close>

type_synonym pending = "64 word \<rightharpoonup> byte list"

text \<open>
  Lines 233 to 235: the flag is the first byte, the key the next eight, the message the
  rest. \<open>logData\<close> is the entry as long as it is: the index of \<open>logData[0]\<close> and the
  open end of \<open>logData[9:]\<close> are checked against the length, so an entry shorter than
  nine bytes panics in one of the three expressions, whatever its capacity.
\<close>

definition decode :: "byte list \<Rightarrow> (byte \<times> 64 word \<times> byte list) option" where
  "decode logData =
     (if length logData = 0 then None
      else case slice logData 1 9 of
             None \<Rightarrow> None
           | Some kb \<Rightarrow>
              (case slice logData 9 (length logData) of
                 None \<Rightarrow> None
               | Some msg \<Rightarrow> Some (logData ! 0, Uint64 kb, msg)))"

text \<open>
  Lines 236 to 241: with the flag set the key is deleted when it is there; then, with no
  \<open>else\<close> and no \<open>continue\<close> between them, the message is stored under the key.
\<close>

definition store_entry :: "byte \<Rightarrow> 64 word \<Rightarrow> byte list \<Rightarrow> pending \<Rightarrow> pending" where
  "store_entry dBit key msg m =
     (let m1 = (if dBit = 1 then (if m key \<noteq> None then m(key := None) else m) else m)
      in m1(key \<mapsto> msg))"

text \<open>
  The loop of the visitor over one segment, \<open>n\<close> iterations left. A reader with nothing
  more to give answers as at the end of the segment.
\<close>

fun read_entries :: "next_result list \<Rightarrow> nat \<Rightarrow> pending \<Rightarrow> wal_call list
    \<Rightarrow> error option outcome \<times> pending \<times> wal_call list" where
  "read_entries rs 0 m cs = (Returns None, m, cs)"
| "read_entries [] (Suc n) m cs = (Returns None, m, cs @ [ReaderNext])"
| "read_entries (NextErr e # rs) (Suc n) m cs = (Returns (Some e), m, cs @ [ReaderNext])"
| "read_entries (NextEnd # rs) (Suc n) m cs = (Returns None, m, cs @ [ReaderNext])"
| "read_entries (NextData logData # rs) (Suc n) m cs =
     (case decode logData of
        None \<Rightarrow> (Panics, m, cs @ [ReaderNext])
      | Some (dBit, key, msg) \<Rightarrow> read_entries rs n (store_entry dBit key msg m) (cs @ [ReaderNext]))"

text \<open>
  \<open>r.Read\<close> calls the visitor once for each segment, oldest first, and stops with the
  visitor's error; the visitor of \<open>Recovery\<close> never asks it to stop otherwise.
\<close>

fun read_segments :: "segment list \<Rightarrow> pending \<Rightarrow> wal_call list
    \<Rightarrow> error option outcome \<times> pending \<times> wal_call list" where
  "read_segments [] m cs = (Returns None, m, cs)"
| "read_segments (s # ss) m cs =
     (case read_entries (seg_next s) (unat (seg_count s)) m (cs @ [ReaderCount]) of
        (Returns None, m', cs') \<Rightarrow> read_segments ss m' cs'
      | r \<Rightarrow> r)"

text \<open>
  The environment gives whether \<open>os.MkdirAll\<close> succeeded and what \<open>wal.New\<close> returned:
  an error, or the log with its \<open>needLogRecovery\<close>. On the error of \<open>wal.New\<close> the
  handle it returned is closed and the adapter keeps its fields. The map is returned
  with every error, holding what was stored until then.
\<close>

definition Recovery :: "adapter \<Rightarrow> bool \<Rightarrow> bool \<Rightarrow> error + wal \<times> bool
    \<Rightarrow> (pending \<times> error option) outcome \<times> adapter" where
  "Recovery a reset_requested mkdir_ok opened =
     (case config a of
        None \<Rightarrow> (Panics, a)
      | Some c \<Rightarrow>
         if \<not> mkdir_ok then (Returns (Map.empty, Some CreateDirFailed), a)
         else case opened of
                Inl e \<Rightarrow> (Returns (Map.empty, Some e), a)
              | Inr (w, needLogRecovery) \<Rightarrow>
                  let a1 = a\<lparr>closer := True, wal := Some w\<rparr>
                  in if \<not> needLogRecovery \<or> reset_requested then (Returns (Map.empty, None), a1)
                     else case wal_do w NewReader of
                            (Some e, w1) \<Rightarrow> (Returns (Map.empty, Some e), a1\<lparr>wal := Some w1\<rparr>)
                          | (None, w1) \<Rightarrow>
                             (case read_segments (segments w1) Map.empty (calls w1 @ [ReaderRead]) of
                                (Returns err, m, cs) \<Rightarrow> (Returns (m, err), a1\<lparr>wal := Some (w1\<lparr>calls := cs\<rparr>)\<rparr>)
                              | (Panics, m, cs) \<Rightarrow> (Panics, a1\<lparr>wal := Some (w1\<lparr>calls := cs\<rparr>)\<rparr>)
                              | (Blocks, m, cs) \<Rightarrow> (Blocks, a1\<lparr>wal := Some (w1\<lparr>calls := cs\<rparr>)\<rparr>)))"

subsection \<open>The epoch of a flush\<close>

text \<open>
  A \<open>time.Time\<close> is an instant, here the nanoseconds since the zero time of the package
  (1 January of the year 1, UTC); a \<open>time.Duration\<close> is a number of nanoseconds.
  \<open>Truncate\<close> and \<open>Round\<close> work on multiples of \<open>d\<close> since the zero time and leave
  the instant alone when \<open>d\<close> is not positive; \<open>Round\<close> rounds halfway values up;
  \<open>Unix\<close> is the whole seconds since 1 January 1970.
\<close>

definition Millisecond :: int where
  "Millisecond = 1000000"

definition Truncate :: "int \<Rightarrow> int \<Rightarrow> int" where
  "Truncate t d = (if d \<le> 0 then t else t - t mod d)"

definition Round :: "int \<Rightarrow> int \<Rightarrow> int" where
  "Round t d = (if d \<le> 0 then t else let r = t mod d in if r + r < d then t - r else t + (d - r))"

definition Add :: "int \<Rightarrow> int \<Rightarrow> int" where
  "Add t d = t + d"

definition Unix :: "int \<Rightarrow> int" where
  "Unix t = t div 1000000000 - 62135596800"

text \<open>\<open>now\<close> is what \<open>time.Now()\<close> reads when the function is called.\<close>

definition timeID :: "int \<Rightarrow> int \<Rightarrow> int" where
  "timeID d now = Unix (Round (Truncate now d) Millisecond)"

definition nexTimeID :: "int \<Rightarrow> int \<Rightarrow> int" where
  "nexTimeID d now = Unix (Round (Add (Truncate now d) d) Millisecond)"

subsection \<open>Write\<close>

text \<open>
  The loop over the buffer, \<open>n\<close> iterations left, on the log \<open>w\<close>. \<open>offset\<close> and
  \<open>dataLen\<close> are \<open>uint32\<close> and their sums wrap.
\<close>

fun write_loop :: "byte list \<Rightarrow> 32 word \<Rightarrow> nat \<Rightarrow> wal \<Rightarrow> error option outcome \<times> wal" where
  "write_loop buf offset 0 w = (Returns None, w)"
| "write_loop buf offset (Suc n) w =
     (case slice buf (unat offset) (unat (offset + 4)) of
        None \<Rightarrow> (Panics, w)
      | Some lb \<Rightarrow>
         (let dataLen = Uint32 lb
          in case slice buf (unat (offset + 4)) (unat (offset + dataLen)) of
               None \<Rightarrow> (Panics, w)
             | Some data \<Rightarrow>
                (case wal_do w (LogAppend data) of
                   (Some e, w1) \<Rightarrow> (Returns (Some e), w1)
                 | (None, w1) \<Rightarrow> write_loop buf (offset + dataLen) n w1)))"

text \<open>
  Lines 265 to 281, run with the lock held: the loop, the signal of the next epoch, the
  reset of the count and the signal that the current epoch is applied. \<open>buf\<close> is what
  \<open>Bytes\<close> returns, and the slice expressions of the loop reach as far as its
  capacity: the loop is given the whole array. \<open>now1\<close> and \<open>now2\<close> are the two
  readings of the clock.
\<close>

definition flush :: "adapter \<Rightarrow> wal \<Rightarrow> int \<Rightarrow> int \<Rightarrow> error option outcome \<times> adapter" where
  "flush a w now1 now2 =
     (case buffer (tinyBatch a) of
        None \<Rightarrow> (Panics, a)
      | Some b \<Rightarrow>
         (case write_loop (bytes b @ spare b) 0 (unat (count (tinyBatch a))) w of
            (Returns None, w1) \<Rightarrow>
              (case config a of
                 None \<Rightarrow> (Panics, a\<lparr>wal := Some w1\<rparr>)
               | Some c \<Rightarrow>
                  (case wal_do w1 (SignalInitWrite (nexTimeID (dur c) now1)) of
                     (Some e, w2) \<Rightarrow> (Returns (Some e), a\<lparr>wal := Some w2\<rparr>)
                   | (None, w2) \<Rightarrow>
                      (case wal_do w2 (SignalLogApplied (timeID (dur c) now2)) of
                         (r, w3) \<Rightarrow> (Returns r, a\<lparr>tinyBatch := reset (tinyBatch a), wal := Some w3\<rparr>))))
          | (r, w1) \<Rightarrow> (r, a\<lparr>wal := Some w1\<rparr>)))"

text \<open>
  The deferred function, run on every way out of the locked part, a panic included: it
  resets the buffer, then receives from the channel.
\<close>

definition deferred :: "error option outcome \<times> adapter \<Rightarrow> error option outcome \<times> adapter" where
  "deferred ra =
     (case ra of (r, a) \<Rightarrow>
        (case buffer (tinyBatch a) of
           None \<Rightarrow> (Panics, a)
         | Some b \<Rightarrow>
            (let a1 = set_buffer a (buffer_Reset b)
             in if writeLockC_len a1 = 0 then (Blocks, a1)
                else (r, a1\<lparr>writeLockC_len := writeLockC_len a1 - 1\<rparr>))))"

text \<open>
  The send on \<open>writeLockC\<close> goes through when the channel has a free slot. With no free
  slot it waits for a receiver, and the file has none but the deferred function of the
  sender itself.
\<close>

definition Write :: "adapter \<Rightarrow> int \<Rightarrow> int \<Rightarrow> error option outcome \<times> adapter" where
  "Write a now1 now2 =
     (if count (tinyBatch a) = 0 then (Returns None, a)
      else case wal a of
             None \<Rightarrow> (Panics, a)
           | Some w \<Rightarrow>
              (case wal_do w NewWriter of
                 (Some e, w1) \<Rightarrow> (Returns (Some e), a\<lparr>wal := Some w1\<rparr>)
               | (None, w1) \<Rightarrow>
                  (let a1 = a\<lparr>wal := Some w1\<rparr>
                   in if writeLockC_len a1 < writeLockC_cap a1
                      then deferred (flush (a1\<lparr>writeLockC_len := writeLockC_len a1 + 1\<rparr>) w1 now1 now2)
                      else (Blocks, a1))))"

subsection \<open>Notions used to state the properties\<close>

text \<open>
  The bytes of a payload argument, the part of a record after its length field, and the
  whole record as \<open>Append\<close> writes it.
\<close>

definition payload :: "byte list option \<Rightarrow> byte list" where
  "payload data = (case data of None \<Rightarrow> [] | Some d \<Rightarrow> d)"

definition region :: "bool \<Rightarrow> 64 word \<Rightarrow> byte list option \<Rightarrow> byte list" where
  "region delFlag k data = (if delFlag then 1 else 0) # PutUint64 k @ payload data"

definition record_bytes :: "bool \<Rightarrow> 64 word \<Rightarrow> byte list option \<Rightarrow> byte list" where
  "record_bytes delFlag k data = PutUint32 (of_nat (len data + 8 + 4 + 1)) @ region delFlag k data"

type_synonym entry = "bool \<times> 64 word \<times> byte list option"

abbreviation records_bytes :: "entry list \<Rightarrow> byte list" where
  "records_bytes recs \<equiv> concat (map (\<lambda>(delFlag, k, data). record_bytes delFlag k data) recs)"

text \<open>A run of calls of \<open>Append\<close>, stopped by the first that does not return nil.\<close>

fun append_all :: "adapter \<Rightarrow> entry list \<Rightarrow> error option outcome \<times> adapter" where
  "append_all a [] = (Returns None, a)"
| "append_all a ((delFlag, k, data) # rs) =
     (case Append a delFlag k data of
        (Returns None, a1) \<Rightarrow> append_all a1 rs
      | r \<Rightarrow> r)"

text \<open>Handing a list of byte strings to the log one by one, until the log answers with an error.\<close>

fun log_all :: "wal \<Rightarrow> byte list list \<Rightarrow> error option outcome \<times> wal" where
  "log_all w [] = (Returns None, w)"
| "log_all w (d # ds) =
     (case wal_do w (LogAppend d) of
        (Some e, w1) \<Rightarrow> (Returns (Some e), w1)
      | (None, w1) \<Rightarrow> log_all w1 ds)"

text \<open>
  An engine and a log that accept every call; a buffer as the pool hands it out; the
  adapter of \<open>init\<close> as \<open>Open\<close> and \<open>Recovery\<close> leave it; and the same adapter
  with a channel of one slot, which the file never makes.
\<close>

definition engine0 :: memdb where
  "engine0 = \<lparr>db_Set = (\<lambda>_ _ _. None), db_Get = (\<lambda>_ _. Inr []), db_Keys = (\<lambda>_. []),
     db_Remove = (\<lambda>_ _. None)\<rparr>"

definition wal0 :: wal where
  "wal0 = \<lparr>calls = [], reply = (\<lambda>_ _. None), segments = []\<rparr>"

definition pooled :: buffer where
  "pooled = \<lparr>bytes = [], spare = [], room = (\<lambda>_. 0)\<rparr>"

definition ready :: adapter where
  "ready = \<lparr>db = Some engine0,
     config = Some \<lparr>path = ''data'', size = 4096, dur = 60000000000\<rparr>,
     writeLockC_cap = 0, writeLockC_len = 0, bufPool = Some 4096,
     tinyBatch = \<lparr>entryCount = 0, buffer = Some pooled\<rparr>,
     wal = Some wal0, version = 0, closer = True\<rparr>"

definition one_slot :: "adapter \<Rightarrow> adapter" where
  "one_slot a = a\<lparr>writeLockC_cap := 1\<rparr>"

text \<open>
  \<open>ready\<close> after \<open>Append(false, 5, [1, 2])\<close>, and after \<open>Append(true, 5, nil)\<close> as
  well; the two records; a log that refuses every append; a payload of \<open>2\<^sup>3\<^sup>2 - 13\<close>
  bytes; a log that was not closed cleanly and holds the entries set(1, "a"),
  set(2, "b"), delete(1) in one segment; two readings of the clock, 0.3 and 0.7 seconds
  after the Unix second 1700000000.
\<close>

definition loaded :: adapter where
  "loaded = ready\<lparr>tinyBatch := \<lparr>entryCount = 1,
     buffer = Some (pooled\<lparr>bytes := [15, 0, 0, 0, 0, 5, 0, 0, 0, 0, 0, 0, 0, 1, 2]\<rparr>)\<rparr>\<rparr>"

definition two_records :: "entry list" where
  "two_records = [(False, 5, Some [1, 2]), (True, 5, None)]"

definition loaded2 :: adapter where
  "loaded2 = ready\<lparr>tinyBatch := \<lparr>entryCount = 2,
     buffer = Some (pooled\<lparr>bytes := [15, 0, 0, 0, 0, 5, 0, 0, 0, 0, 0, 0, 0, 1, 2,
                                    13, 0, 0, 0, 1, 5, 0, 0, 0, 0, 0, 0, 0]\<rparr>)\<rparr>\<rparr>"

definition wal_refusing :: wal where
  "wal_refusing = \<lparr>calls = [],
     reply = (\<lambda>cs c. case c of LogAppend d \<Rightarrow> Some (WalError 1) | _ \<Rightarrow> None), segments = []\<rparr>"

definition long_payload :: "byte list" where
  "long_payload = replicate 4294967283 0"

definition wal_dirty :: wal where
  "wal_dirty = \<lparr>calls = [], reply = (\<lambda>_ _. None),
     segments = [\<lparr>seg_timeID = 0, seg_count = 3, seg_next =
       [NextData [0, 1, 0, 0, 0, 0, 0, 0, 0, 97],
        NextData [0, 2, 0, 0, 0, 0, 0, 0, 0, 98],
        NextData [1, 1, 0, 0, 0, 0, 0, 0, 0]]\<rparr>]\<rparr>"

definition clock1 :: int where
  "clock1 = 63835596800300000000"

definition clock2 :: int where
  "clock2 = 63835596800700000000"

section \<open>Properties\<close>

subsection \<open>The codec\<close>

lemma bit_byte_of_word:
  "bit (push_bit j (ucast (ucast (drop_bit j (k::'a::len word)) :: byte)) :: 'a word) n
     \<longleftrightarrow> j \<le> n \<and> n < j + 8 \<and> bit k n"
  by (auto simp: bit_simps dest: bit_imp_le_length)

lemma bit_byte0_of_word:
  "bit (ucast (ucast (k::'a::len word) :: byte) :: 'a word) n \<longleftrightarrow> n < 8 \<and> bit k n"
  using bit_byte_of_word [of 0 k n] by simp

lemma Uint64_PutUint64: "Uint64 (PutUint64 k) = k"
proof (rule bit_word_eqI)
  fix n assume "n < LENGTH(64)"
  then have n: "n < 8 \<or> (8 \<le> n \<and> n < 16) \<or> (16 \<le> n \<and> n < 24) \<or> (24 \<le> n \<and> n < 32)
     \<or> (32 \<le> n \<and> n < 40) \<or> (40 \<le> n \<and> n < 48) \<or> (48 \<le> n \<and> n < 56) \<or> (56 \<le> n \<and> n < 64)"
    by simp arith
  have "bit (Uint64 (PutUint64 k)) n \<longleftrightarrow>
     (n < 8 \<or> (8 \<le> n \<and> n < 16) \<or> (16 \<le> n \<and> n < 24) \<or> (24 \<le> n \<and> n < 32)
     \<or> (32 \<le> n \<and> n < 40) \<or> (40 \<le> n \<and> n < 48) \<or> (48 \<le> n \<and> n < 56) \<or> (56 \<le> n \<and> n < 64)) \<and> bit k n"
    unfolding Uint64_def PutUint64_def
    by (simp add: bit_or_iff bit_byte_of_word bit_byte0_of_word del: bit_ucast_iff bit_push_bit_iff) blast
  with n show "bit (Uint64 (PutUint64 k)) n = bit k n"
    by simp
qed

lemma Uint32_PutUint32: "Uint32 (PutUint32 k) = k"
proof (rule bit_word_eqI)
  fix n assume "n < LENGTH(32)"
  then have n: "n < 8 \<or> (8 \<le> n \<and> n < 16) \<or> (16 \<le> n \<and> n < 24) \<or> (24 \<le> n \<and> n < 32)"
    by simp arith
  have "bit (Uint32 (PutUint32 k)) n \<longleftrightarrow>
     (n < 8 \<or> (8 \<le> n \<and> n < 16) \<or> (16 \<le> n \<and> n < 24) \<or> (24 \<le> n \<and> n < 32)) \<and> bit k n"
    unfolding Uint32_def PutUint32_def
    by (simp add: bit_or_iff bit_byte_of_word bit_byte0_of_word del: bit_ucast_iff bit_push_bit_iff) blast
  with n show "bit (Uint32 (PutUint32 k)) n = bit k n"
    by simp
qed

lemma length_PutUint64 [simp]: "length (PutUint64 k) = 8"
  by (simp add: PutUint64_def)

lemma length_PutUint32 [simp]: "length (PutUint32 k) = 4"
  by (simp add: PutUint32_def)

lemma length_payload [simp]: "length (payload data) = len data"
  by (simp add: payload_def len_def split: option.splits)

lemma length_region [simp]: "length (region delFlag k data) = len data + 9"
  by (simp add: region_def)

lemma length_record_bytes [simp]: "length (record_bytes delFlag k data) = len data + 13"
  by (simp add: record_bytes_def)

text \<open>A call of \<open>Append\<close> that returns nil has put one whole record behind the buffer and counted it.\<close>

lemma bytes_written [simp]: "bytes (written b p) = bytes b @ p"
  by (simp add: written_def)

text \<open>
  The buffer at work: a write into a new array, with the spare capacity that the growth
  leaves; a write of nothing; a reset; and a write after the reset, in place over the old
  contents.
\<close>

lemma buffer_at_work:
  "buffer_Write (pooled\<lparr>room := (\<lambda>n. n)\<rparr>) [7, 8]
     = Some (Inr \<lparr>bytes = [7, 8], spare = [0, 0], room = (\<lambda>n. n)\<rparr>)"
  "buffer_Write pooled [] = None"
  "buffer_Reset (pooled\<lparr>bytes := [1, 2, 3], spare := [4]\<rparr>) = pooled\<lparr>spare := [1, 2, 3, 4]\<rparr>"
  "buffer_Write (pooled\<lparr>spare := [1, 2, 3, 4]\<rparr>) [9] = Some (Inr (pooled\<lparr>bytes := [9], spare := [2, 3, 4]\<rparr>))"
  by (simp_all add: buffer_Write_def written_def buffer_Reset_def pooled_def numeral_2_eq_2)

lemma Append_Returns_None:
  assumes "Append a delFlag k data = (Returns None, a')"
  shows "\<exists>b b'. buffer (tinyBatch a) = Some b \<and>
    bytes b' = bytes b @ record_bytes delFlag k data \<and>
    a' = a\<lparr>tinyBatch := \<lparr>entryCount = entryCount (tinyBatch a) + 1, buffer = Some b'\<rparr>\<rparr>"
proof -
  from assms obtain b where b: "buffer (tinyBatch a) = Some b"
    by (auto simp: Append_def Let_def split: option.splits)
  let ?b2 = "written (written b (PutUint32 (of_nat (len data + 8 + 4 + 1))))
    ((if delFlag then 1 else 0) # PutUint64 k)"
  let ?b' = "case data of None \<Rightarrow> ?b2 | Some d \<Rightarrow> written ?b2 d"
  have "bytes ?b' = bytes b @ record_bytes delFlag k data"
    by (simp add: record_bytes_def region_def payload_def split: option.splits)
  moreover from assms b
  have "a' = a\<lparr>tinyBatch := \<lparr>entryCount = entryCount (tinyBatch a) + 1, buffer = Some ?b'\<rparr>\<rparr>"
    by (auto simp: Append_def Let_def buffer_Write_def set_buffer_def incount_def PutUint32_def
        split: option.splits sum.splits if_splits)
  ultimately show ?thesis
    using b by blast
qed

lemma decode_region:
  "decode (region delFlag k data) = Some (if delFlag then 1 else 0, k, payload data)"
  by (simp add: decode_def region_def slice_def Uint64_PutUint64)

lemma Append_ready:
  "Append ready delFlag k (Some [x, y]) =
     (Returns None, ready\<lparr>tinyBatch := \<lparr>entryCount = 1,
        buffer = Some (pooled\<lparr>bytes := record_bytes delFlag k (Some [x, y])\<rparr>)\<rparr>\<rparr>)"
  by (simp add: Append_def ready_def pooled_def buffer_Write_def written_def set_buffer_def incount_def
      record_bytes_def region_def payload_def len_def PutUint32_def PutUint64_def)

text \<open>
  C9. For every delete flag, key and payload, the record that \<open>Append\<close> writes, read
  from behind its length field the way \<open>Recovery\<close> reads an entry (the flag in byte 0,
  the key little endian in bytes 1 to 8, the payload in what is left), gives back the
  flag, the key and the payload.
\<close>

theorem Append_decode_roundtrip:
  assumes "Append a delFlag k data = (Returns None, a')"
  shows "\<exists>b b' dBit. buffer (tinyBatch a) = Some b \<and> buffer (tinyBatch a') = Some b' \<and>
     decode (drop (length (bytes b) + 4) (bytes b')) = Some (dBit, k, payload data) \<and>
     (dBit = 1) = delFlag"
proof -
  from Append_Returns_None [OF assms] obtain b b' where b: "buffer (tinyBatch a) = Some b"
    and bb: "bytes b' = bytes b @ record_bytes delFlag k data"
    and a': "a' = a\<lparr>tinyBatch := \<lparr>entryCount = entryCount (tinyBatch a) + 1, buffer = Some b'\<rparr>\<rparr>"
    by blast
  have "drop (length (bytes b) + 4) (bytes b') = region delFlag k data"
    by (simp add: bb record_bytes_def)
  then have "decode (drop (length (bytes b) + 4) (bytes b'))
      = Some (if delFlag then 1 else 0, k, payload data)"
    by (simp only: decode_region)
  moreover have "buffer (tinyBatch a') = Some b'"
    by (simp add: a')
  ultimately show ?thesis
    using b by (intro exI [of _ b] exI [of _ b'] exI [of _ "if delFlag then 1 else 0"]) simp
qed

theorem Append_decode_roundtrip_witness:
  "fst (Append ready True 5 (Some [1, 2])) = Returns None \<and>
   (\<exists>b b' dBit. buffer (tinyBatch ready) = Some b \<and>
      buffer (tinyBatch (snd (Append ready True 5 (Some [1, 2])))) = Some b' \<and>
      decode (drop (length (bytes b) + 4) (bytes b')) = Some (dBit, 5, payload (Some [1, 2])) \<and>
      (dBit = 1) = True)"
proof -
  have h: "Append ready True 5 (Some [1, 2]) = (Returns None, snd (Append ready True 5 (Some [1, 2])))"
    by (simp add: Append_ready)
  show ?thesis
    using Append_decode_roundtrip [OF h] by (simp add: Append_ready)
qed

text \<open>With a buffer in place, \<open>Append\<close> returns nil for every payload but the empty one that is not nil.\<close>

lemma Append_fits:
  assumes "buffer (tinyBatch a) = Some b" and "data \<noteq> Some []"
  shows "\<exists>b'. bytes b' = bytes b @ record_bytes delFlag k data \<and>
     Append a delFlag k data = (Returns None,
       a\<lparr>tinyBatch := \<lparr>entryCount = entryCount (tinyBatch a) + 1, buffer = Some b'\<rparr>\<rparr>)"
proof -
  let ?b2 = "written (written b (PutUint32 (of_nat (len data + 8 + 4 + 1))))
    ((if delFlag then 1 else 0) # PutUint64 k)"
  let ?b' = "case data of None \<Rightarrow> ?b2 | Some d \<Rightarrow> written ?b2 d"
  have "bytes ?b' = bytes b @ record_bytes delFlag k data"
    by (simp add: record_bytes_def region_def payload_def split: option.splits)
  moreover from assms
  have "Append a delFlag k data = (Returns None,
       a\<lparr>tinyBatch := \<lparr>entryCount = entryCount (tinyBatch a) + 1, buffer = Some ?b'\<rparr>\<rparr>)"
    by (auto simp: Append_def Let_def buffer_Write_def set_buffer_def incount_def PutUint32_def
        split: option.splits sum.splits if_splits)
  ultimately show ?thesis by blast
qed

lemma Append_empty_payload_panics:
  "buffer (tinyBatch a) = Some b \<Longrightarrow> fst (Append a delFlag k (Some [])) = Panics"
  by (simp add: Append_def Let_def buffer_Write_def PutUint32_def)

text \<open>
  Against C4 as it is stated: \<open>Append\<close> with the delete flag and the payload \<open>[1, 2]\<close>
  writes fifteen bytes, the last two of them the payload.
\<close>

theorem Append_delete_payload_counterexample:
  "Append ready True 5 (Some [1, 2]) =
     (Returns None, ready\<lparr>tinyBatch := \<lparr>entryCount = 1,
        buffer = Some (pooled\<lparr>bytes := [15, 0, 0, 0, 1, 5, 0, 0, 0, 0, 0, 0, 0, 1, 2]\<rparr>)\<rparr>\<rparr>)"
  by (simp add: Append_def ready_def pooled_def buffer_Write_def written_def set_buffer_def incount_def
      len_def PutUint32_def PutUint64_def)

text \<open>
  C4, amended. For every append with the delete flag, the record written is the length
  field, the flag byte 1, the eight bytes of the key and then the bytes of the payload
  argument, as for a set; a delete whose payload argument is nil or empty is written as
  length field, flag and key alone.
\<close>

theorem Append_delete_record:
  assumes "Append a True k data = (Returns None, a')"
  shows "\<exists>b b'. buffer (tinyBatch a) = Some b \<and> buffer (tinyBatch a') = Some b' \<and>
     bytes b' = bytes b @ PutUint32 (of_nat (len data + 13)) @ 1 # PutUint64 k @ payload data \<and>
     (len data = 0 \<longrightarrow> bytes b' = bytes b @ PutUint32 13 @ 1 # PutUint64 k)"
proof -
  from Append_Returns_None [OF assms] obtain b b' where b: "buffer (tinyBatch a) = Some b"
    and bb: "bytes b' = bytes b @ record_bytes True k data"
    and a': "a' = a\<lparr>tinyBatch := \<lparr>entryCount = entryCount (tinyBatch a) + 1, buffer = Some b'\<rparr>\<rparr>"
    by blast
  have "len data = 0 \<Longrightarrow> payload data = []"
    by (simp add: payload_def len_def split: option.splits)
  then show ?thesis
    using b by (auto simp: a' bb record_bytes_def region_def add.commute)
qed

theorem Append_delete_record_witness:
  "fst (Append ready True 5 None) = Returns None \<and> len None = 0 \<and>
   (\<exists>b b'. buffer (tinyBatch ready) = Some b \<and>
      buffer (tinyBatch (snd (Append ready True 5 None))) = Some b' \<and>
      bytes b' = bytes b @ PutUint32 (of_nat (len None + 13)) @ 1 # PutUint64 5 @ payload None \<and>
      bytes b' = bytes b @ PutUint32 13 @ 1 # PutUint64 5)"
proof -
  have f: "fst (Append ready True 5 None) = Returns None"
    by (simp add: Append_def ready_def pooled_def buffer_Write_def set_buffer_def incount_def len_def
        PutUint32_def)
  then have h: "Append ready True 5 None = (Returns None, snd (Append ready True 5 None))"
    by (simp add: prod_eq_iff)
  have l: "len None = 0" by (simp add: len_def)
  from Append_delete_record [OF h] l f show ?thesis by simp
qed

subsection \<open>The loop of Write over the buffer\<close>

lemma unat_of_nat32: "n < 2 ^ 32 \<Longrightarrow> unat (of_nat n :: 32 word) = n"
  by (simp add: unat_of_nat)

lemma slice_middle: "slice (xs @ ys @ zs) (length xs) (length xs + length ys) = Some ys"
  by (simp add: slice_def)

lemma write_loop_records:
  "length pre + length (records_bytes recs) < 2 ^ 32 \<Longrightarrow>
   write_loop (pre @ records_bytes recs @ post) (of_nat (length pre)) (length recs) w
     = log_all w (map (\<lambda>(delFlag, k, data). region delFlag k data) recs)"
proof (induction recs arbitrary: pre w)
  case Nil
  then show ?case by simp
next
  case (Cons r recs)
  obtain delFlag k data where r: "r = (delFlag, k, data)" by (cases r)
  let ?n = "len data + 8 + 4 + 1"
  let ?rest = "records_bytes recs @ post"
  let ?buf = "pre @ records_bytes (r # recs) @ post"
  from Cons.prems have bound: "length pre + ?n + length (records_bytes recs) < 2 ^ 32"
    by (simp add: r)
  have buf1: "?buf = pre @ PutUint32 (of_nat ?n) @ (region delFlag k data @ ?rest)"
    by (simp add: r record_bytes_def)
  have buf2: "?buf = (pre @ PutUint32 (of_nat ?n)) @ region delFlag k data @ ?rest"
    by (simp add: r record_bytes_def)
  have buf3: "?buf = (pre @ record_bytes delFlag k data) @ records_bytes recs @ post"
    by (simp add: r)
  have u0: "unat (of_nat (length pre) :: 32 word) = length pre"
    using bound by (intro unat_of_nat32) simp
  have u4: "unat (of_nat (length pre) + 4 :: 32 word) = length pre + 4"
  proof -
    have "(of_nat (length pre) + 4 :: 32 word) = of_nat (length pre + 4)" by simp
    moreover have "length pre + 4 < 2 ^ 32" using bound by simp
    ultimately show ?thesis by (simp only: unat_of_nat32)
  qed
  have un: "unat (of_nat (length pre) + of_nat ?n :: 32 word) = length pre + ?n"
  proof -
    have "(of_nat (length pre) + of_nat ?n :: 32 word) = of_nat (length pre + ?n)" by simp
    moreover have "length pre + ?n < 2 ^ 32" using bound by simp
    ultimately show ?thesis by (simp only: unat_of_nat32)
  qed
  have s1: "slice ?buf (unat (of_nat (length pre) :: 32 word)) (unat (of_nat (length pre) + 4 :: 32 word))
      = Some (PutUint32 (of_nat ?n))"
    unfolding u0 u4 buf1 using slice_middle [of pre "PutUint32 (of_nat ?n)"] by simp
  have s2: "slice ?buf (unat (of_nat (length pre) + 4 :: 32 word))
      (unat (of_nat (length pre) + of_nat ?n :: 32 word)) = Some (region delFlag k data)"
    unfolding u4 un buf2
    using slice_middle [of "pre @ PutUint32 (of_nat ?n)" "region delFlag k data" ?rest]
    by (simp add: add.assoc)
  have next_off: "(of_nat (length pre) + of_nat ?n :: 32 word)
      = of_nat (length (pre @ record_bytes delFlag k data))"
    by simp
  have IH: "\<And>w'. write_loop ?buf (of_nat (length (pre @ record_bytes delFlag k data))) (length recs) w'
      = log_all w' (map (\<lambda>(delFlag, k, data). region delFlag k data) recs)"
    unfolding buf3 using bound by (intro Cons.IH) simp
  have step: "write_loop ?buf (of_nat (length pre)) (Suc (length recs)) w =
      (case wal_do w (LogAppend (region delFlag k data)) of
         (Some e, w1) \<Rightarrow> (Returns (Some e), w1)
       | (None, w1) \<Rightarrow> write_loop ?buf (of_nat (length (pre @ record_bytes delFlag k data))) (length recs) w1)"
  proof -
    have s2': "slice ?buf (unat (of_nat (length pre) + 4 :: 32 word))
        (unat (of_nat (length (pre @ record_bytes delFlag k data)) :: 32 word)) = Some (region delFlag k data)"
      using s2 by (simp only: next_off)
    show ?thesis
      by (simp only: write_loop.simps s1 s2' option.case Let_def Uint32_PutUint32 next_off)
  qed
  have "write_loop ?buf (of_nat (length pre)) (Suc (length recs)) w =
      (case wal_do w (LogAppend (region delFlag k data)) of
         (Some e, w1) \<Rightarrow> (Returns (Some e), w1)
       | (None, w1) \<Rightarrow> log_all w1 (map (\<lambda>(delFlag, k, data). region delFlag k data) recs))"
    using step by (simp only: IH)
  then show ?case
    by (simp only: r list.map prod.case log_all.simps length_Cons)
qed


lemma append_all_Returns_None:
  "append_all a recs = (Returns None, a') \<Longrightarrow> buffer (tinyBatch a) = Some b \<Longrightarrow>
   \<exists>b'. bytes b' = bytes b @ records_bytes recs \<and>
     a' = a\<lparr>tinyBatch := \<lparr>entryCount = entryCount (tinyBatch a) + of_nat (length recs),
       buffer = Some b'\<rparr>\<rparr>"
proof (induction recs arbitrary: a b)
  case Nil
  then have "bytes b = bytes b @ records_bytes []" and
    "a' = a\<lparr>tinyBatch := \<lparr>entryCount = entryCount (tinyBatch a) + of_nat (length ([] :: entry list)),
       buffer = Some b\<rparr>\<rparr>"
    by simp_all
  then show ?case by blast
next
  case (Cons r recs)
  obtain delFlag k data where r: "r = (delFlag, k, data)" by (cases r)
  from Cons.prems(1) obtain a1 where 1: "Append a delFlag k data = (Returns None, a1)"
    and 2: "append_all a1 recs = (Returns None, a')"
    by (auto simp: r split: prod.splits outcome.splits option.splits)
  from Append_Returns_None [OF 1] Cons.prems(2) obtain b1
    where b1: "bytes b1 = bytes b @ record_bytes delFlag k data"
    and a1: "a1 = a\<lparr>tinyBatch := \<lparr>entryCount = entryCount (tinyBatch a) + 1, buffer = Some b1\<rparr>\<rparr>"
    by auto
  have "buffer (tinyBatch a1) = Some b1"
    by (simp add: a1)
  from Cons.IH [OF 2 this] obtain b' where b': "bytes b' = bytes b1 @ records_bytes recs"
    and a': "a' = a1\<lparr>tinyBatch := \<lparr>entryCount = entryCount (tinyBatch a1) + of_nat (length recs),
       buffer = Some b'\<rparr>\<rparr>"
    by blast
  have "bytes b' = bytes b @ records_bytes (r # recs)"
    by (simp add: b' b1 r)
  moreover have "a' = a\<lparr>tinyBatch := \<lparr>entryCount = entryCount (tinyBatch a) + of_nat (length (r # recs)),
       buffer = Some b'\<rparr>\<rparr>"
    by (simp add: a' a1 add.assoc add.commute)
  ultimately show ?case by blast
qed

lemma length_le_records_bytes: "length recs \<le> length (records_bytes recs)"
  by (induction recs) (auto simp: split_def)

lemma log_all_calls:
  "log_all w ds = (Returns None, w') \<Longrightarrow> w' = w\<lparr>calls := calls w @ map LogAppend ds\<rparr>"
proof (induction ds arbitrary: w)
  case Nil
  then show ?case by simp
next
  case (Cons d ds)
  let ?w1 = "w\<lparr>calls := calls w @ [LogAppend d]\<rparr>"
  from Cons.prems have "log_all ?w1 ds = (Returns None, w')"
    by (auto simp: wal_do_def split: option.splits)
  from Cons.IH [OF this] show ?case by simp
qed

lemma write_loop_calls:
  "write_loop buf off n w = (r, w') \<Longrightarrow> \<exists>ds. w' = w\<lparr>calls := calls w @ map LogAppend ds\<rparr>"
proof (induction n arbitrary: off w)
  case 0
  then have "w' = w\<lparr>calls := calls w @ map LogAppend []\<rparr>" by simp
  then show ?case by blast
next
  case (Suc n)
  show ?case
  proof (cases "slice buf (unat off) (unat (off + 4))")
    case None
    with Suc.prems have "w' = w\<lparr>calls := calls w @ map LogAppend []\<rparr>" by simp
    then show ?thesis by blast
  next
    case (Some lb)
    show ?thesis
    proof (cases "slice buf (unat (off + 4)) (unat (off + Uint32 lb))")
      case None
      with Some Suc.prems have "w' = w\<lparr>calls := calls w @ map LogAppend []\<rparr>" by simp
      then show ?thesis by blast
    next
      case (Some data)
      let ?w1 = "w\<lparr>calls := calls w @ [LogAppend data]\<rparr>"
      show ?thesis
      proof (cases "reply w (calls w) (LogAppend data)")
        case None
        with \<open>slice buf (unat off) (unat (off + 4)) = Some lb\<close> Some Suc.prems
        have "write_loop buf (off + Uint32 lb) n ?w1 = (r, w')"
          by (simp add: wal_do_def)
        from Suc.IH [OF this] obtain ds where "w' = ?w1\<lparr>calls := calls ?w1 @ map LogAppend ds\<rparr>"
          by blast
        then have "w' = w\<lparr>calls := calls w @ map LogAppend (data # ds)\<rparr>" by simp
        then show ?thesis by blast
      next
        case (Some e)
        with \<open>slice buf (unat off) (unat (off + 4)) = Some lb\<close>
          \<open>slice buf (unat (off + 4)) (unat (off + Uint32 lb)) = Some data\<close> Suc.prems
        have "w' = w\<lparr>calls := calls w @ map LogAppend [data]\<rparr>"
          by (simp add: wal_do_def)
        then show ?thesis by blast
      qed
    qed
  qed
qed

subsection \<open>Write\<close>

lemma Append_ready_loaded: "Append ready False 5 (Some [1, 2]) = (Returns None, loaded)"
  by (simp add: Append_def ready_def loaded_def pooled_def buffer_Write_def written_def set_buffer_def
      incount_def len_def PutUint32_def PutUint64_def)

lemma append_all_ready: "append_all ready two_records = (Returns None, loaded2)"
  by (simp add: two_records_def Append_def ready_def loaded2_def pooled_def buffer_Write_def written_def
      set_buffer_def incount_def len_def PutUint32_def PutUint64_def)

text \<open>What a call of \<open>Write\<close> on a batch that is not empty has done when it returns nil.\<close>

lemma Write_Returns_None:
  assumes "Write a now1 now2 = (Returns None, a')" and "count (tinyBatch a) \<noteq> 0"
  shows "\<exists>w w1 w2 w3 w4 b c.
     wal a = Some w \<and> wal_do w NewWriter = (None, w1) \<and>
     buffer (tinyBatch a) = Some b \<and>
     write_loop (bytes b @ spare b) 0 (unat (count (tinyBatch a))) w1 = (Returns None, w2) \<and>
     config a = Some c \<and>
     wal_do w2 (SignalInitWrite (nexTimeID (dur c) now1)) = (None, w3) \<and>
     wal_do w3 (SignalLogApplied (timeID (dur c) now2)) = (None, w4) \<and>
     writeLockC_len a < writeLockC_cap a \<and>
     a' = a\<lparr>wal := Some w4, tinyBatch := \<lparr>entryCount = 0, buffer = Some (buffer_Reset b)\<rparr>\<rparr>"
  using assms
  unfolding Write_def flush_def deferred_def
  by (auto simp: Let_def set_buffer_def reset_def count_def
      split: option.splits prod.splits outcome.splits if_splits)

text \<open>
  \<open>Open\<close>, \<open>Append\<close> and \<open>Recovery\<close> leave the channel as it is, so the adapter of
  \<open>init\<close> keeps its unbuffered channel. With it, a call of \<open>Write\<close> on a batch that
  is not empty opens the writer and then waits at the send; a call that returns has not
  touched the batch, and one that returns nil found the batch empty.
\<close>

lemma capacity_kept:
  "writeLockC_cap (snd (Open a p sz d mkdir_ok opened b)) = writeLockC_cap a"
  "writeLockC_cap (snd (Append a delFlag k data)) = writeLockC_cap a"
  "writeLockC_cap (snd (Recovery a reset_requested mkdir_ok opened')) = writeLockC_cap a"
  by (auto simp: Open_def Append_def Recovery_def Let_def set_buffer_def
      split: option.splits sum.splits prod.splits outcome.splits)

lemma Write_unbuffered_blocks:
  assumes "count (tinyBatch a) \<noteq> 0" and "wal a = Some w" and "reply w (calls w) NewWriter = None"
    and "writeLockC_cap a = 0"
  shows "fst (Write a now1 now2) = Blocks"
  using assms by (simp add: Write_def wal_do_def)

lemma Write_unbuffered_returns:
  assumes "writeLockC_cap a = 0" and "Write a now1 now2 = (Returns r, a')"
  shows "tinyBatch a' = tinyBatch a \<and> (r = None \<longrightarrow> count (tinyBatch a) = 0 \<and> a' = a)"
  using assms
  by (auto simp: Write_def wal_do_def Let_def split: option.splits if_splits) metis


lemma write_loop_numeral:
  "write_loop buf off (numeral k) w = write_loop buf off (Suc (pred_numeral k)) w"
  by (simp add: numeral_eq_Suc)

lemma Write_one_slot_loaded2:
  "Write (one_slot loaded2) now1 now2 = (Returns None,
     one_slot (ready\<lparr>tinyBatch := \<lparr>entryCount = 0,
         buffer = Some (pooled\<lparr>spare := [15, 0, 0, 0, 0, 5, 0, 0, 0, 0, 0, 0, 0, 1, 2,
                                          13, 0, 0, 0, 1, 5, 0, 0, 0, 0, 0, 0, 0]\<rparr>)\<rparr>,
       wal := Some (wal0\<lparr>calls := [NewWriter, LogAppend [0, 5, 0, 0, 0, 0, 0, 0, 0, 1, 2],
        LogAppend [1, 5, 0, 0, 0, 0, 0, 0, 0],
        SignalInitWrite (nexTimeID 60000000000 now1), SignalLogApplied (timeID 60000000000 now2)]\<rparr>)\<rparr>))"
  by (simp add: Write_def flush_def deferred_def one_slot_def loaded2_def ready_def pooled_def wal0_def
      wal_do_def count_def reset_def set_buffer_def buffer_Reset_def slice_def Uint32_def
      write_loop_numeral)

text \<open>
  C8. When the count of the batch is zero, \<open>Write\<close> returns nil at once and the
  adapter is as it was: the log with the calls made on it, where no writer was opened,
  nothing appended and no signal given, and the batch.
\<close>

theorem Write_empty_batch:
  assumes "count (tinyBatch a) = 0"
  shows "Write a now1 now2 = (Returns None, a)"
  using assms by (simp add: Write_def)

theorem Write_empty_batch_witness:
  "count (tinyBatch ready) = 0 \<and> Write ready clock1 clock2 = (Returns None, ready)"
proof -
  have h: "count (tinyBatch ready) = 0"
    by (simp add: count_def ready_def)
  from Write_empty_batch [OF h] h show ?thesis by simp
qed

text \<open>
  Behind the send, every error that \<open>Write\<close> returns leaves the buffer with the length
  0 and its array as it was: the records are still there for the slice expressions of a
  later call.
\<close>

lemma Write_error_behind_lock:
  assumes "Write a now1 now2 = (Returns (Some e), a')"
    and "wal a = Some w" and "reply w (calls w) NewWriter = None"
  shows "\<exists>b b'. buffer (tinyBatch a) = Some b \<and> buffer (tinyBatch a') = Some b' \<and>
    bytes b' = [] \<and> spare b' = bytes b @ spare b"
  using assms
  unfolding Write_def flush_def deferred_def
  by (auto simp: Let_def set_buffer_def buffer_Reset_def reset_def count_def wal_do_def
      split: option.splits prod.splits outcome.splits if_splits)

text \<open>
  So with a channel of one slot: the log refuses the append, \<open>Write\<close> returns its
  error with the count still 1 and the record in the array of the reset buffer; a second
  call, on a log that accepts, reads the record there and appends it again.
\<close>

lemma Write_retry_behind_lock:
  "Write (one_slot (loaded\<lparr>wal := Some wal_refusing\<rparr>)) now1 now2 =
     (Returns (Some (WalError 1)),
      one_slot (loaded\<lparr>wal := Some (wal_refusing\<lparr>calls := [NewWriter, LogAppend [0, 5, 0, 0, 0, 0, 0, 0, 0, 1, 2]]\<rparr>),
        tinyBatch := \<lparr>entryCount = 1,
          buffer = Some (pooled\<lparr>spare := [15, 0, 0, 0, 0, 5, 0, 0, 0, 0, 0, 0, 0, 1, 2]\<rparr>)\<rparr>\<rparr>))"
  "Write (one_slot (loaded\<lparr>tinyBatch := \<lparr>entryCount = 1,
          buffer = Some (pooled\<lparr>spare := [15, 0, 0, 0, 0, 5, 0, 0, 0, 0, 0, 0, 0, 1, 2]\<rparr>)\<rparr>\<rparr>)) now1 now2 =
     (Returns None,
      one_slot (loaded\<lparr>wal := Some (wal0\<lparr>calls := [NewWriter, LogAppend [0, 5, 0, 0, 0, 0, 0, 0, 0, 1, 2],
          SignalInitWrite (nexTimeID 60000000000 now1), SignalLogApplied (timeID 60000000000 now2)]\<rparr>),
        tinyBatch := \<lparr>entryCount = 0,
          buffer = Some (pooled\<lparr>spare := [15, 0, 0, 0, 0, 5, 0, 0, 0, 0, 0, 0, 0, 1, 2]\<rparr>)\<rparr>\<rparr>))"
  by (simp_all add: Write_def flush_def deferred_def one_slot_def loaded_def ready_def pooled_def
      wal_refusing_def wal0_def wal_do_def count_def reset_def set_buffer_def buffer_Reset_def slice_def
      Uint32_def)



subsection \<open>The epochs and the two signals\<close>

lemma Round_dvd: "0 < d \<Longrightarrow> d dvd Round t d"
proof -
  assume d: "0 < d"
  have 1: "t - t mod d = d * (t div d)"
    by (simp add: minus_mod_eq_mult_div)
  have 2: "t + (d - t mod d) = d * (t div d + 1)"
    using 1 by (simp add: algebra_simps)
  show ?thesis
    using d unfolding Round_def Let_def by (simp add: 1 2 del: minus_mod_eq_mult_div)
qed

lemma Truncate_floor:
  assumes "0 < d"
  shows "d dvd Truncate t d" and "Truncate t d \<le> t" and "t < Truncate t d + d"
proof -
  have 1: "t - t mod d = d * (t div d)"
    by (simp add: minus_mod_eq_mult_div)
  show "d dvd Truncate t d"
    using assms unfolding Truncate_def by (simp add: 1 del: minus_mod_eq_mult_div)
  show "Truncate t d \<le> t"
    using assms by (simp add: Truncate_def)
  show "t < Truncate t d + d"
    using assms pos_mod_bound [of d t] by (simp add: Truncate_def)
qed

lemma Round_of_multiple: "0 < d \<Longrightarrow> d dvd t \<Longrightarrow> Round t d = t"
  by (auto simp: Round_def Let_def)

text \<open>
  For a window of whole milliseconds the rounding changes nothing: the current epoch is
  the second in which the window of the clock begins, the next epoch the second in which
  the window after it begins. For a window of whole seconds the two differ by the window.
\<close>

lemma timeID_whole_milliseconds:
  assumes "0 < d" and "Millisecond dvd d"
  shows "timeID d now = (now - now mod d) div 1000000000 - 62135596800"
    and "nexTimeID d now = (now - now mod d + d) div 1000000000 - 62135596800"
proof -
  have m: "0 < Millisecond" by (simp add: Millisecond_def)
  have "d dvd Truncate now d"
    using assms(1) by (rule Truncate_floor)
  with assms(2) have 1: "Millisecond dvd Truncate now d"
    by (rule dvd_trans)
  with assms(2) have 2: "Millisecond dvd Add (Truncate now d) d"
    by (simp add: Add_def)
  have t: "Truncate now d = now - now mod d"
    using assms(1) by (simp add: Truncate_def)
  show "timeID d now = (now - now mod d) div 1000000000 - 62135596800"
    unfolding timeID_def Round_of_multiple [OF m 1] by (simp add: Unix_def t)
  show "nexTimeID d now = (now - now mod d + d) div 1000000000 - 62135596800"
    unfolding nexTimeID_def Round_of_multiple [OF m 2] by (simp add: Unix_def Add_def t)
qed

lemma nexTimeID_whole_seconds:
  assumes "0 < d" and "1000000000 dvd d"
  shows "nexTimeID d now = timeID d now + d div 1000000000"
proof -
  have "Millisecond dvd (1000000000 :: int)"
    by (simp add: Millisecond_def)
  then have ms: "Millisecond dvd d"
    using assms(2) by (rule dvd_trans)
  have "(now - now mod d + d) div 1000000000 = (now - now mod d) div 1000000000 + d div 1000000000"
    using assms(2) by (rule div_plus_div_distrib_dvd_right)
  then show ?thesis
    by (simp add: timeID_whole_milliseconds [OF assms(1) ms])
qed

text \<open>
  The functions at work: the rounding to the nearest millisecond, halfway up; the Unix
  seconds of the two readings of the clock; and their epochs for a window of one minute,
  the next epoch taken at the first reading, the current epoch at the second.
\<close>

lemma Round_at_work:
  "Round 1499999 Millisecond = 1000000" "Round 1500000 Millisecond = 2000000"
  "Round 1500000 0 = 1500000" "Truncate 1500000 0 = 1500000"
  "Truncate 150 60 = 120" "Add 120 60 = 180"
  by (simp_all add: Round_def Truncate_def Add_def Millisecond_def)

lemma Unix_at_clock: "Unix clock1 = 1700000000" "Unix clock2 = 1700000000"
  by (simp_all add: Unix_def clock1_def clock2_def)


text \<open>
  A window of one and a half milliseconds, one and a half milliseconds before the Unix
  second 1700000000: the next window begins half a millisecond before that second, and
  the rounding takes the next epoch up into it.
\<close>

lemma epochs_rounded_up:
  "nexTimeID 1500000 63835596799998500000 = 1700000000"
  "timeID 1500000 63835596799998500000 = 1699999999"
  by (simp_all add: nexTimeID_def timeID_def Truncate_def Add_def Round_def Unix_def Millisecond_def)

text \<open>
  The calls of the code behind the send, whatever the adapter: a call of \<open>Write\<close> that
  returns nil either found the batch empty and did nothing, or made these calls on the
  log, in this order: the writer, the appends, \<open>SignalInitWrite\<close> with the next epoch
  and last \<open>SignalLogApplied\<close> with the current epoch.
\<close>

lemma Write_nil_calls:
  assumes "Write a now1 now2 = (Returns None, a')"
  shows "(count (tinyBatch a) = 0 \<and> a' = a) \<or>
    (\<exists>w w' c ds. wal a = Some w \<and> wal a' = Some w' \<and> config a = Some c \<and>
     calls w' = calls w @ NewWriter # map LogAppend ds @
       [SignalInitWrite (nexTimeID (dur c) now1), SignalLogApplied (timeID (dur c) now2)])"
proof (cases "count (tinyBatch a) = 0")
  case True
  with assms have "a' = a" by (simp add: Write_def)
  with True show ?thesis by simp
next
  case False
  from Write_Returns_None [OF assms False] obtain w w1 w2 w3 w4 b c where
    w: "wal a = Some w" and w1: "wal_do w NewWriter = (None, w1)"
    and w2: "write_loop (bytes b @ spare b) 0 (unat (count (tinyBatch a))) w1 = (Returns None, w2)"
    and c: "config a = Some c"
    and w3: "wal_do w2 (SignalInitWrite (nexTimeID (dur c) now1)) = (None, w3)"
    and w4: "wal_do w3 (SignalLogApplied (timeID (dur c) now2)) = (None, w4)"
    and a': "a' = a\<lparr>wal := Some w4, tinyBatch := \<lparr>entryCount = 0, buffer = Some (buffer_Reset b)\<rparr>\<rparr>"
    by blast
  from write_loop_calls [OF w2] obtain ds where ds: "w2 = w1\<lparr>calls := calls w1 @ map LogAppend ds\<rparr>"
    by blast
  have "calls w1 = calls w @ [NewWriter]"
    using w1 by (auto simp: wal_do_def)
  moreover have "calls w3 = calls w2 @ [SignalInitWrite (nexTimeID (dur c) now1)]"
    using w3 by (auto simp: wal_do_def)
  moreover have "calls w4 = calls w3 @ [SignalLogApplied (timeID (dur c) now2)]"
    using w4 by (auto simp: wal_do_def)
  ultimately have calls: "calls w4 = calls w @ NewWriter # map LogAppend ds @
       [SignalInitWrite (nexTimeID (dur c) now1), SignalLogApplied (timeID (dur c) now2)]"
    by (simp add: ds)
  have "wal a' = Some w4" by (simp add: a')
  with w c calls show ?thesis
    by auto
qed



subsection \<open>The length field and the slices of Write\<close>

lemma Append_length_field:
  assumes "Append a delFlag k data = (Returns None, a')" and "len data + 13 < 2 ^ 32"
  shows "\<exists>b b'. buffer (tinyBatch a) = Some b \<and> buffer (tinyBatch a') = Some b' \<and>
         unat (Uint32 (take 4 (drop (length (bytes b)) (bytes b')))) = len data + 13 \<and>
         drop (length (bytes b) + 4) (bytes b') = region delFlag k data \<and>
         length (region delFlag k data) = len data + 9"
proof -
  from Append_Returns_None [OF assms(1)] obtain b b' where b: "buffer (tinyBatch a) = Some b"
    and bb: "bytes b' = bytes b @ record_bytes delFlag k data"
    and a': "a' = a\<lparr>tinyBatch := \<lparr>entryCount = entryCount (tinyBatch a) + 1, buffer = Some b'\<rparr>\<rparr>"
    by blast
  have 1: "take 4 (drop (length (bytes b)) (bytes b')) = PutUint32 (of_nat (len data + 8 + 4 + 1))"
    by (simp add: bb record_bytes_def)
  have "unat (of_nat (len data + 13) :: 32 word) = len data + 13"
    using assms(2) by (rule unat_of_nat32)
  then have 2: "unat (Uint32 (take 4 (drop (length (bytes b)) (bytes b')))) = len data + 13"
    unfolding 1 Uint32_PutUint32 by (simp add: add.commute)
  have 3: "drop (length (bytes b) + 4) (bytes b') = region delFlag k data"
    by (simp add: bb record_bytes_def)
  have "buffer (tinyBatch a') = Some b'" by (simp add: a')
  with b 2 3 show ?thesis by (intro exI [of _ b] exI [of _ b']) simp
qed

lemma write_loop_appended:
  assumes "append_all a0 recs = (Returns None, a1)" and "buffer (tinyBatch a0) = Some b0"
    and "bytes b0 = []" and "entryCount (tinyBatch a0) = 0"
    and "buffer (tinyBatch a1) = Some b1" and "length (bytes b1) < 2 ^ 32"
  shows "write_loop (bytes b1 @ post) 0 (unat (count (tinyBatch a1))) w
           = log_all w (map (\<lambda>(delFlag, k, data). region delFlag k data) recs)"
proof -
  from append_all_Returns_None [OF assms(1,2)] assms(3,4,5)
  have b1: "bytes b1 = records_bytes recs" and n: "count (tinyBatch a1) = of_nat (length recs)"
    by (auto simp: count_def)
  have "length recs \<le> length (records_bytes recs)" by (rule length_le_records_bytes)
  with assms(6) have "length recs < 2 ^ 32" by (simp add: b1)
  then have n': "unat (count (tinyBatch a1)) = length recs"
    unfolding n by (rule unat_of_nat32)
  have "length ([] :: byte list) + length (records_bytes recs) < 2 ^ 32"
    using assms(6) by (simp add: b1)
  from write_loop_records [OF this, of post w] show ?thesis
    by (simp add: b1 n')
qed

lemma length_long_payload: "length long_payload = 4294967283"
  by (simp add: long_payload_def)

text \<open>
  Against C3 as it is stated: for a payload of \<open>2\<^sup>3\<^sup>2 - 13\<close> bytes, \<open>len(p) + 13\<close> is
  \<open>2\<^sup>3\<^sup>2\<close> and the length field, a \<open>uint32\<close>, holds 0.
\<close>

theorem Append_length_field_counterexample:
  "len (Some long_payload) + 13 = 4294967296 \<and>
   fst (Append ready False 0 (Some long_payload)) = Returns None \<and>
   map_option (\<lambda>b. unat (Uint32 (take 4 (bytes b))))
     (buffer (tinyBatch (snd (Append ready False 0 (Some long_payload))))) = Some 0"
proof -
  have l: "len (Some long_payload) = 4294967283"
    by (simp add: len_def length_long_payload)
  have b: "buffer (tinyBatch ready) = Some pooled"
    by (simp add: ready_def)
  have "long_payload \<noteq> []"
    using length_long_payload by auto
  then have ne: "Some long_payload \<noteq> Some []"
    by simp
  from Append_fits [OF b ne, of False 0] obtain b'
    where bb: "bytes b' = bytes pooled @ record_bytes False 0 (Some long_payload)"
    and a: "Append ready False 0 (Some long_payload) = (Returns None,
       ready\<lparr>tinyBatch := \<lparr>entryCount = entryCount (tinyBatch ready) + 1, buffer = Some b'\<rparr>\<rparr>)"
    by blast
  have "take 4 (bytes b') = PutUint32 (of_nat (len (Some long_payload) + 8 + 4 + 1))"
    by (simp add: bb pooled_def record_bytes_def)
  also have "\<dots> = PutUint32 0"
  proof -
    have "(of_nat (len (Some long_payload) + 8 + 4 + 1) :: 32 word) = 0"
      by (subst word_of_nat_eq_0_iff) (simp add: l)
    then show ?thesis by (simp only:)
  qed
  finally have "Uint32 (take 4 (bytes b')) = 0"
    by (simp only: Uint32_PutUint32)
  with a l show ?thesis by simp
qed

text \<open>
  C3, amended. For every record appended with a payload \<open>p\<close> where \<open>len(p) + 13\<close> is
  below \<open>2\<^sup>3\<^sup>2\<close>, the length field holds \<open>len(p) + 13\<close> and the bytes behind it, the
  flag, the key and the payload, are \<open>len(p) + 9\<close>. So for a buffer of fewer than
  \<open>2\<^sup>3\<^sup>2\<close> bytes that holds \<open>N\<close> appended records, the loop of \<open>Write\<close> hands to
  the log, in the order of the appends, the bytes behind the length field of each
  record (up to the first that the log refuses), whatever spare bytes \<open>post\<close> the array
  has behind the records; and a \<open>Write\<close> that returns nil has appended just these
  \<open>N\<close> between opening the writer and the two signals.
\<close>

theorem Append_length_field_Write_slices:
  "(Append a delFlag k data = (Returns None, a') \<and> len data + 13 < 2 ^ 32 \<longrightarrow>
      (\<exists>b b'. buffer (tinyBatch a) = Some b \<and> buffer (tinyBatch a') = Some b' \<and>
         unat (Uint32 (take 4 (drop (length (bytes b)) (bytes b')))) = len data + 13 \<and>
         drop (length (bytes b) + 4) (bytes b') = region delFlag k data \<and>
         length (region delFlag k data) = len data + 9)) \<and>
   (append_all a0 recs = (Returns None, a1) \<and> buffer (tinyBatch a0) = Some b0 \<and> bytes b0 = [] \<and>
    entryCount (tinyBatch a0) = 0 \<and> buffer (tinyBatch a1) = Some b1 \<and> length (bytes b1) < 2 ^ 32 \<longrightarrow>
      write_loop (bytes b1 @ post) 0 (unat (count (tinyBatch a1))) w
        = log_all w (map (\<lambda>(delFlag, k, data). region delFlag k data) recs) \<and>
      (recs \<noteq> [] \<and> Write a1 now1 now2 = (Returns None, a2) \<longrightarrow>
         (\<exists>w0 w2 t1 t2. wal a1 = Some w0 \<and> wal a2 = Some w2 \<and>
            calls w2 = calls w0 @ NewWriter #
              map LogAppend (map (\<lambda>(delFlag, k, data). region delFlag k data) recs) @
              [SignalInitWrite t1, SignalLogApplied t2])))"
proof (intro conjI impI)
  assume "Append a delFlag k data = (Returns None, a') \<and> len data + 13 < 2 ^ 32"
  then show "\<exists>b b'. buffer (tinyBatch a) = Some b \<and> buffer (tinyBatch a') = Some b' \<and>
         unat (Uint32 (take 4 (drop (length (bytes b)) (bytes b')))) = len data + 13 \<and>
         drop (length (bytes b) + 4) (bytes b') = region delFlag k data \<and>
         length (region delFlag k data) = len data + 9"
    using Append_length_field by blast
next
  assume h: "append_all a0 recs = (Returns None, a1) \<and> buffer (tinyBatch a0) = Some b0 \<and> bytes b0 = [] \<and>
    entryCount (tinyBatch a0) = 0 \<and> buffer (tinyBatch a1) = Some b1 \<and> length (bytes b1) < 2 ^ 32"
  then show "write_loop (bytes b1 @ post) 0 (unat (count (tinyBatch a1))) w
        = log_all w (map (\<lambda>(delFlag, k, data). region delFlag k data) recs)"
    using write_loop_appended by blast
next
  assume h: "append_all a0 recs = (Returns None, a1) \<and> buffer (tinyBatch a0) = Some b0 \<and> bytes b0 = [] \<and>
    entryCount (tinyBatch a0) = 0 \<and> buffer (tinyBatch a1) = Some b1 \<and> length (bytes b1) < 2 ^ 32"
    and s: "recs \<noteq> [] \<and> Write a1 now1 now2 = (Returns None, a2)"
  let ?regions = "map (\<lambda>(delFlag, k, data). region delFlag k data) recs"
  from h have loop: "write_loop (bytes b1 @ post) 0 (unat (count (tinyBatch a1))) w
        = log_all w ?regions" for w post
    using write_loop_appended by blast
  from append_all_Returns_None [of a0 recs a1 b0] h
  have n: "count (tinyBatch a1) = of_nat (length recs)"
    by (auto simp: count_def)
  have "length recs \<le> length (records_bytes recs)" by (rule length_le_records_bytes)
  moreover from append_all_Returns_None [of a0 recs a1 b0] h have "bytes b1 = records_bytes recs"
    by auto
  ultimately have "length recs < 2 ^ 32" using h by simp
  then have "unat (count (tinyBatch a1)) = length recs"
    unfolding n by (rule unat_of_nat32)
  with s have "unat (count (tinyBatch a1)) \<noteq> 0" by simp
  then have ne: "count (tinyBatch a1) \<noteq> 0" by auto
  from s have "Write a1 now1 now2 = (Returns None, a2)" by simp
  from Write_Returns_None [OF this ne] obtain w0 w1 w2 w3 w4 b c where
    w: "wal a1 = Some w0" and w1: "wal_do w0 NewWriter = (None, w1)"
    and b: "buffer (tinyBatch a1) = Some b"
    and w2: "write_loop (bytes b @ spare b) 0 (unat (count (tinyBatch a1))) w1 = (Returns None, w2)"
    and c: "config a1 = Some c"
    and w3: "wal_do w2 (SignalInitWrite (nexTimeID (dur c) now1)) = (None, w3)"
    and w4: "wal_do w3 (SignalLogApplied (timeID (dur c) now2)) = (None, w4)"
    and a2: "a2 = a1\<lparr>wal := Some w4, tinyBatch := \<lparr>entryCount = 0, buffer = Some (buffer_Reset b)\<rparr>\<rparr>"
    by blast
  from b h have "b = b1" by simp
  with w2 loop have "log_all w1 ?regions = (Returns None, w2)" by simp
  from log_all_calls [OF this] have "calls w2 = calls w1 @ map LogAppend ?regions" by simp
  moreover have "calls w1 = calls w0 @ [NewWriter]"
    using w1 by (auto simp: wal_do_def)
  moreover have "calls w3 = calls w2 @ [SignalInitWrite (nexTimeID (dur c) now1)]"
    using w3 by (auto simp: wal_do_def)
  moreover have "calls w4 = calls w3 @ [SignalLogApplied (timeID (dur c) now2)]"
    using w4 by (auto simp: wal_do_def)
  ultimately have "calls w4 = calls w0 @ NewWriter # map LogAppend ?regions @
     [SignalInitWrite (nexTimeID (dur c) now1), SignalLogApplied (timeID (dur c) now2)]"
    by simp
  moreover have "wal a2 = Some w4" by (simp add: a2)
  ultimately show "\<exists>w0 w2 t1 t2. wal a1 = Some w0 \<and> wal a2 = Some w2 \<and>
            calls w2 = calls w0 @ NewWriter # map LogAppend ?regions @
              [SignalInitWrite t1, SignalLogApplied t2]"
    using w by blast
qed

lemma append_all_one_slot: "append_all (one_slot ready) two_records = (Returns None, one_slot loaded2)"
  by (simp add: two_records_def Append_def one_slot_def ready_def loaded2_def pooled_def buffer_Write_def
      written_def set_buffer_def incount_def len_def PutUint32_def PutUint64_def)

theorem Append_length_field_Write_slices_witness:
  "Append ready False 5 (Some [1, 2]) = (Returns None, loaded) \<and> len (Some [1, 2]) + 13 < 2 ^ 32 \<and>
   (\<exists>b b'. buffer (tinyBatch ready) = Some b \<and> buffer (tinyBatch loaded) = Some b' \<and>
      unat (Uint32 (take 4 (drop (length (bytes b)) (bytes b')))) = len (Some [1, 2]) + 13 \<and>
      drop (length (bytes b) + 4) (bytes b') = region False 5 (Some [1, 2]) \<and>
      length (region False 5 (Some [1, 2])) = len (Some [1, 2]) + 9) \<and>
   append_all (one_slot ready) two_records = (Returns None, one_slot loaded2) \<and>
   buffer (tinyBatch (one_slot ready)) = Some pooled \<and> bytes pooled = [] \<and>
   entryCount (tinyBatch (one_slot ready)) = 0 \<and>
   buffer (tinyBatch (one_slot loaded2)) =
     Some (pooled\<lparr>bytes := [15, 0, 0, 0, 0, 5, 0, 0, 0, 0, 0, 0, 0, 1, 2,
                            13, 0, 0, 0, 1, 5, 0, 0, 0, 0, 0, 0, 0]\<rparr>) \<and>
   write_loop [15, 0, 0, 0, 0, 5, 0, 0, 0, 0, 0, 0, 0, 1, 2, 13, 0, 0, 0, 1, 5, 0, 0, 0, 0, 0, 0, 0] 0
       (unat (count (tinyBatch (one_slot loaded2)))) wal0
     = log_all wal0 (map (\<lambda>(delFlag, k, data). region delFlag k data) two_records) \<and>
   two_records \<noteq> [] \<and>
   fst (Write (one_slot loaded2) clock1 clock2) = Returns None \<and>
   (\<exists>w0 w2 t1 t2. wal (one_slot loaded2) = Some w0 \<and>
      wal (snd (Write (one_slot loaded2) clock1 clock2)) = Some w2 \<and>
      calls w2 = calls w0 @ NewWriter #
        map LogAppend (map (\<lambda>(delFlag, k, data). region delFlag k data) two_records) @
        [SignalInitWrite t1, SignalLogApplied t2])"
proof -
  let ?b1 = "pooled\<lparr>bytes := [15, 0, 0, 0, 0, 5, 0, 0, 0, 0, 0, 0, 0, 1, 2,
                            13, 0, 0, 0, 1, 5, 0, 0, 0, 0, 0, 0, 0 :: byte]\<rparr>"
  have h1: "Append ready False 5 (Some [1, 2]) = (Returns None, loaded) \<and> len (Some [1, 2]) + 13 < 2 ^ 32"
    by (simp add: Append_ready_loaded len_def)
  have h2: "append_all (one_slot ready) two_records = (Returns None, one_slot loaded2) \<and>
     buffer (tinyBatch (one_slot ready)) = Some pooled \<and>
     bytes pooled = [] \<and> entryCount (tinyBatch (one_slot ready)) = 0 \<and>
     buffer (tinyBatch (one_slot loaded2)) = Some ?b1 \<and> length (bytes ?b1) < 2 ^ 32"
    using append_all_one_slot by (simp add: one_slot_def ready_def loaded2_def pooled_def)
  have h3: "two_records \<noteq> [] \<and>
     Write (one_slot loaded2) clock1 clock2 = (Returns None, snd (Write (one_slot loaded2) clock1 clock2))"
    by (simp add: Write_one_slot_loaded2 two_records_def)
  from Append_length_field_Write_slices [of ready False 5 "Some [1, 2]" loaded "one_slot ready"
      two_records "one_slot loaded2" pooled ?b1 "[]" wal0 clock1 clock2
      "snd (Write (one_slot loaded2) clock1 clock2)"]
    h1 h2 h3
  show ?thesis
    by (simp add: Write_one_slot_loaded2)
qed

subsection \<open>Recovery\<close>

text \<open>Whatever the flag, an entry leaves its message stored under its key.\<close>

lemma store_entry_stores: "store_entry dBit key msg m = m(key \<mapsto> msg)"
  by (auto simp: store_entry_def Let_def)

lemma wal_dirty_entries:
  "region False 1 (Some [97]) = [0, 1, 0, 0, 0, 0, 0, 0, 0, 97]"
  "region False 2 (Some [98]) = [0, 2, 0, 0, 0, 0, 0, 0, 0, 98]"
  "region True 1 None = [1, 1, 0, 0, 0, 0, 0, 0, 0]"
  by (simp_all add: region_def payload_def PutUint64_def)

lemma read_entries_dirty:
  "read_entries [NextData [0, 1, 0, 0, 0, 0, 0, 0, 0, 97],
        NextData [0, 2, 0, 0, 0, 0, 0, 0, 0, 98],
        NextData [1, 1, 0, 0, 0, 0, 0, 0, 0]] (Suc (Suc (Suc 0))) Map.empty cs
     = (Returns None, [1 \<mapsto> [97], 2 \<mapsto> [98], 1 \<mapsto> []],
        cs @ [ReaderNext, ReaderNext, ReaderNext])"
proof -
  have d: "decode [0, 1, 0, 0, 0, 0, 0, 0, 0, 97] = Some (0, 1, [97])"
     "decode [0, 2, 0, 0, 0, 0, 0, 0, 0, 98] = Some (0, 2, [98])"
     "decode [1, 1, 0, 0, 0, 0, 0, 0, 0] = Some (1, 1, [])"
    using decode_region [of False 1 "Some [97]"] decode_region [of False 2 "Some [98]"]
      decode_region [of True 1 None]
    by (simp_all add: wal_dirty_entries payload_def)
  show ?thesis
    by (simp add: d store_entry_stores)
qed

lemma unat_3: "unat (3 :: 32 word) = Suc (Suc (Suc 0))"
  by simp

text \<open>
  C1, on the code: replaying set(1, "a"), set(2, "b"), delete(1) gives a map with both
  keys, key 1 bound to the empty message of the delete record, not the map with key 2
  alone.
\<close>

theorem Recovery_delete_reinserts:
  "Recovery ready False True (Inr (wal_dirty, True)) =
     (Returns ([1 \<mapsto> [], 2 \<mapsto> [98]], None),
      ready\<lparr>closer := True, wal := Some (wal_dirty\<lparr>calls :=
        [NewReader, ReaderRead, ReaderCount, ReaderNext, ReaderNext, ReaderNext]\<rparr>)\<rparr>)"
proof -
  have m: "[1 \<mapsto> [97 :: byte], 2 \<mapsto> [98], (1 :: 64 word) \<mapsto> []] = [1 \<mapsto> [], 2 \<mapsto> [98]]"
    by (rule ext) simp
  have s: "read_segments (segments wal_dirty) Map.empty [NewReader, ReaderRead]
     = (Returns None, [1 \<mapsto> [], 2 \<mapsto> [98]],
        [NewReader, ReaderRead, ReaderCount, ReaderNext, ReaderNext, ReaderNext])"
    unfolding wal_dirty_def
    by (simp only: wal.simps segment.simps read_segments.simps unat_3 read_entries_dirty m
        prod.case outcome.case option.case append.simps)
  have c: "config ready = Some \<lparr>path = ''data'', size = 4096, dur = 60000000000\<rparr>"
    by (simp add: ready_def)
  have n: "wal_do wal_dirty NewReader = (None, wal_dirty\<lparr>calls := [NewReader]\<rparr>)"
    by (simp add: wal_do_def wal_dirty_def)
  have s': "read_segments (segments (wal_dirty\<lparr>calls := [NewReader]\<rparr>)) Map.empty
      (calls (wal_dirty\<lparr>calls := [NewReader]\<rparr>) @ [ReaderRead])
     = (Returns None, [1 \<mapsto> [], 2 \<mapsto> [98]],
        [NewReader, ReaderRead, ReaderCount, ReaderNext, ReaderNext, ReaderNext])"
    using s by simp
  show ?thesis
    unfolding Recovery_def
    by (simp only: c n s' option.case sum.case prod.case Let_def outcome.case simp_thms if_False if_True)
       simp
qed

theorem Recovery_delete_reinserts_witness:
  "fst (Recovery ready False True (Inr (wal_dirty, True))) = Returns ([1 \<mapsto> [], 2 \<mapsto> [98]], None) \<and>
   fst (Recovery ready False True (Inr (wal_dirty, True))) \<noteq> Returns ([2 \<mapsto> [98]], None)"
proof -
  have "[1 \<mapsto> [], 2 \<mapsto> [98 :: byte]] (1 :: 64 word) \<noteq> [2 \<mapsto> [98]] 1"
    by simp
  then have "[1 \<mapsto> [], (2 :: 64 word) \<mapsto> [98 :: byte]] \<noteq> [2 \<mapsto> [98]]"
    by metis
  with Recovery_delete_reinserts show ?thesis
    by simp
qed

text \<open>
  C7. When the log opens and either reports that no recovery is needed or the caller
  asked for a reset, \<open>Recovery\<close> returns the empty map and no error. The adapter then
  holds the log as \<open>wal.New\<close> returned it, with no call made on it: no reader was
  obtained and no entry read.
\<close>

theorem Recovery_clean_start:
  assumes "config a = Some c" and "\<not> needLogRecovery \<or> reset_requested"
  shows "Recovery a reset_requested True (Inr (w, needLogRecovery))
           = (Returns (Map.empty, None), a\<lparr>closer := True, wal := Some w\<rparr>)"
  using assms by (auto simp: Recovery_def)

theorem Recovery_clean_start_witness:
  "config ready = Some \<lparr>path = ''data'', size = 4096, dur = 60000000000\<rparr> \<and>
   Recovery ready True True (Inr (wal_dirty, True))
     = (Returns (Map.empty, None), ready\<lparr>closer := True, wal := Some wal_dirty\<rparr>)"
proof -
  have c: "config ready = Some \<lparr>path = ''data'', size = 4096, dur = 60000000000\<rparr>"
    by (simp add: ready_def)
  have r: "\<not> True \<or> True" by simp
  from Recovery_clean_start [OF c r, of wal_dirty] c show ?thesis by simp
qed

subsection \<open>The connection state\<close>

text \<open>
  Against C10 as it is stated: on the adapter that \<open>init\<close> makes, which is not open,
  no message operation returns an error; each calls the engine through the nil pointer.
\<close>

theorem message_operations_unchecked:
  "\<not> IsOpen init_adapter \<and> PutMessage init_adapter 1 2 [3] = Panics \<and>
   GetMessage init_adapter 1 2 = Panics \<and> Keys init_adapter 1 = Panics \<and>
   DeleteMessage init_adapter 1 2 = Panics"
  by (simp add: IsOpen_def init_adapter_def PutMessage_def GetMessage_def Keys_def DeleteMessage_def)

text \<open>
  C10, amended. \<open>Open\<close> on an adapter that is already connected returns an error and
  leaves the adapter as it was. The message operations do not look at the connection
  state: on an open adapter they return what the engine answers, and on an adapter that
  is not open they return no error but call the engine through the nil pointer.
\<close>

theorem Open_connected_and_operations:
  "(IsOpen a \<longrightarrow> Open a p sz d mkdir_ok opened fresh = (Returns (Some AlreadyConnected), a)) \<and>
   (db a = Some e \<longrightarrow>
      PutMessage a blockId key v = Returns (db_Set e blockId key v) \<and>
      GetMessage a blockId key = Returns (db_Get e blockId key) \<and>
      Keys a blockId = Returns (db_Keys e blockId) \<and>
      DeleteMessage a blockId key = Returns (db_Remove e blockId key)) \<and>
   (\<not> IsOpen a \<longrightarrow>
      PutMessage a blockId key v = Panics \<and> GetMessage a blockId key = Panics \<and>
      Keys a blockId = Panics \<and> DeleteMessage a blockId key = Panics)"
  by (auto simp: IsOpen_def Open_def PutMessage_def GetMessage_def Keys_def DeleteMessage_def)

theorem Open_connected_and_operations_witness:
  "IsOpen ready \<and> db ready = Some engine0 \<and>
   Open ready ''data'' 4096 60000000000 True (Inr engine0) pooled
     = (Returns (Some AlreadyConnected), ready) \<and>
   PutMessage ready 1 2 [3] = Returns None \<and> GetMessage ready 1 2 = Returns (Inr []) \<and>
   Keys ready 1 = Returns [] \<and> DeleteMessage ready 1 2 = Returns None \<and>
   \<not> IsOpen init_adapter \<and> PutMessage init_adapter 1 2 [3] = Panics \<and>
   GetMessage init_adapter 1 2 = Panics \<and> Keys init_adapter 1 = Panics \<and>
   DeleteMessage init_adapter 1 2 = Panics"
proof -
  have o: "IsOpen ready" and e: "db ready = Some engine0"
    by (simp_all add: IsOpen_def ready_def)
  have n: "\<not> IsOpen init_adapter"
    by (simp add: IsOpen_def init_adapter_def)
  from Open_connected_and_operations [of ready "''data''" 4096 60000000000 True "Inr engine0"
      pooled engine0 1 2 "[3]"]
    Open_connected_and_operations [of init_adapter "''data''" 4096 60000000000 True "Inr engine0"
      pooled engine0 1 2 "[3]"] o e n
  show ?thesis
    by (simp add: engine0_def)
qed

end
